theory Spec2Isabelle
  imports Main
begin

section \<open>Strings and dictionaries as the script uses them\<close>

text \<open>
  The script \<^verbatim>\<open>hack/i18n/bootstrap.py\<close> works on Python strings, on
  \<^verbatim>\<open>pathlib.Path\<close> values and on dictionaries. Strings are \<^typ>\<open>string\<close>
  (one \<^typ>\<open>char\<close> per character, for the code points below 256).
  A dictionary is an association list in insertion order whose keys are distinct, which is
  the order \<^verbatim>\<open>dict.items()\<close> enumerates.
\<close>

type_synonym ('k, 'v) dict = "('k \<times> 'v) list"

text \<open>\<^verbatim>\<open>d[k] = v\<close>: an existing key keeps its position, a new key goes last.\<close>

primrec setitem :: "'k \<Rightarrow> 'v \<Rightarrow> ('k, 'v) dict \<Rightarrow> ('k, 'v) dict" where
  "setitem k v [] = [(k, v)]"
| "setitem k v (p # ps) = (if fst p = k then (k, v) # ps else p # setitem k v ps)"

text \<open>\<^verbatim>\<open>list(d.keys())\<close> and \<^verbatim>\<open>k in d\<close>.\<close>

definition keys :: "('k, 'v) dict \<Rightarrow> 'k list" where
  "keys d = map fst d"

definition contains :: "('k, 'v) dict \<Rightarrow> 'k \<Rightarrow> bool" where
  "contains d k = (k \<in> set (keys d))"

text \<open>\<^verbatim>\<open>s.split(sep)\<close> for a one-character separator: never the empty list.\<close>

fun split_on :: "char \<Rightarrow> string \<Rightarrow> string list" where
  "split_on sep [] = [[]]"
| "split_on sep (c # cs) =
     (if c = sep then [] # split_on sep cs
      else (case split_on sep cs of
              [] \<Rightarrow> [[c]]
            | w # ws \<Rightarrow> (c # w) # ws))"

text \<open>\<^verbatim>\<open>sep.join(xs)\<close>.\<close>

fun join_with :: "string \<Rightarrow> string list \<Rightarrow> string" where
  "join_with sep [] = []"
| "join_with sep [x] = x"
| "join_with sep (x # y # ys) = x @ sep @ join_with sep (y # ys)"

text \<open>\<^verbatim>\<open>s.endswith(t)\<close>.\<close>

definition endswith :: "string \<Rightarrow> string \<Rightarrow> bool" where
  "endswith s t = (length t \<le> length s \<and> drop (length s - length t) s = t)"

text \<open>
  \<^verbatim>\<open>s.rfind(c)\<close>: the index of the last occurrence of the character, or \<open>-1\<close>.
\<close>

definition rfind :: "string \<Rightarrow> char \<Rightarrow> int" where
  "rfind s c =
     (if c \<in> set s then int (length s) - 1 - int (length (takeWhile (\<lambda>x. x \<noteq> c) (rev s)))
      else - 1)"

text \<open>
  \<^verbatim>\<open>s.strip()\<close>. A character is its code point below 256; the white space among
  these is tab, line feed, vertical tab, form feed, carriage return, the four separators
  \<open>0x1C\<close> to \<open>0x1F\<close>, space, next line (\<open>0x85\<close>) and no-break space (\<open>0xA0\<close>).
\<close>

definition is_space :: "char \<Rightarrow> bool" where
  "is_space c = (of_char c \<in> set [9, 10, 11, 12, 13, 28, 29, 30, 31, 32, 133, 160 :: nat])"

definition strip :: "string \<Rightarrow> string" where
  "strip s = rev (dropWhile is_space (rev (dropWhile is_space s)))"

section \<open>Paths\<close>

text \<open>
  A \<^verbatim>\<open>pathlib.PurePosixPath\<close> as CPython 3.12 parses it: the root (\<open>''''\<close>,
  \<open>''/''\<close> or \<open>''//''\<close>) and the components after it. Two paths are equal when their roots
  and components are.
\<close>

datatype pure_path = PurePath (root: string) (tail: "string list")

text \<open>\<^verbatim>\<open>posixpath.splitroot\<close>: the root and the rest of a path string.\<close>

definition splitroot :: "string \<Rightarrow> string \<times> string" where
  "splitroot p =
     (if take 1 p \<noteq> ''/'' then ([], p)
      else if take 1 (drop 1 p) \<noteq> ''/'' \<or> take 1 (drop 2 p) = ''/'' then (''/'', drop 1 p)
      else (take 2 p, drop 2 p))"

text \<open>
  \<^verbatim>\<open>Path(s)\<close>: empty components and \<open>''.''\<close> components are dropped, \<open>''..''\<close> is
  kept.
\<close>

definition Path :: "string \<Rightarrow> pure_path" where
  "Path s =
     (case splitroot s of
        (r, rel) \<Rightarrow> PurePath r [x \<leftarrow> split_on CHR ''/'' rel. x \<noteq> [] \<and> x \<noteq> ''.''])"

text \<open>\<^verbatim>\<open>str(p)\<close>: the empty path reads \<open>''.''\<close>.\<close>

definition str :: "pure_path \<Rightarrow> string" where
  "str p = (let s = root p @ join_with ''/'' (tail p) in if s = [] then ''.'' else s)"

text \<open>
  \<^verbatim>\<open>p / q\<close> for a path \<open>q\<close>, and \<^verbatim>\<open>p / s\<close> for a string \<open>s\<close>: an absolute right
  operand replaces the left one.
\<close>

definition joinpath :: "pure_path \<Rightarrow> pure_path \<Rightarrow> pure_path" where
  "joinpath p q = (if root q \<noteq> [] then q else PurePath (root p) (tail p @ tail q))"

definition joinstr :: "pure_path \<Rightarrow> string \<Rightarrow> pure_path" where
  "joinstr p s = joinpath p (Path s)"

text \<open>\<^verbatim>\<open>Path(*segments)\<close>.\<close>

definition Path_segments :: "string list \<Rightarrow> pure_path" where
  "Path_segments segs = foldl joinstr (PurePath [] []) segs"

text \<open>\<^verbatim>\<open>p.parts\<close>: the root, when there is one, counts as the first part.\<close>

definition parts :: "pure_path \<Rightarrow> string list" where
  "parts p = (if root p \<noteq> [] then root p # tail p else tail p)"

text \<open>\<^verbatim>\<open>p.parent\<close>, \<^verbatim>\<open>p.name\<close>, \<^verbatim>\<open>p.suffix\<close> and \<^verbatim>\<open>p.stem\<close>.\<close>

definition parent :: "pure_path \<Rightarrow> pure_path" where
  "parent p = (if tail p = [] then p else PurePath (root p) (butlast (tail p)))"

definition name :: "pure_path \<Rightarrow> string" where
  "name p = (if tail p = [] then [] else last (tail p))"

definition suffix :: "pure_path \<Rightarrow> string" where
  "suffix p =
     (let n = name p; i = rfind n CHR ''.''
      in if 0 < i \<and> i < int (length n) - 1 then drop (nat i) n else [])"

definition stem :: "pure_path \<Rightarrow> string" where
  "stem p =
     (let n = name p; i = rfind n CHR ''.''
      in if 0 < i \<and> i < int (length n) - 1 then take (nat i) n else n)"

text \<open>
  \<^verbatim>\<open>p.relative_to(other)\<close> raises \<^verbatim>\<open>ValueError\<close> unless \<open>other\<close> is \<open>p\<close> or one
  of its parents; this is the test.
\<close>

definition is_relative_to :: "pure_path \<Rightarrow> pure_path \<Rightarrow> bool" where
  "is_relative_to p other =
     (root p = root other \<and> length (tail other) \<le> length (tail p)
      \<and> take (length (tail other)) (tail p) = tail other)"

section \<open>The path classifier\<close>

text \<open>
  \<^verbatim>\<open>get_path_prefix_and_lang(file_path_str, default_locale, supported_locales)\<close>:
  the family key (a path string) and the locale of a file.
\<close>

definition get_path_prefix_and_lang :: "string \<Rightarrow> string \<Rightarrow> string list \<Rightarrow> string \<times> string" where
  "get_path_prefix_and_lang file_path_str default_locale supported_locales =
     (let file_path = Path file_path_str;
          dir_path = parent file_path;
          base_name = stem file_path;
          base_name_parts = split_on CHR ''.'' base_name
      in if length base_name_parts > 1 \<and> last base_name_parts \<in> set supported_locales
         then (str (joinstr dir_path (join_with ''.'' (butlast base_name_parts))),
               last base_name_parts)
         else if base_name \<in> set supported_locales
         then (str dir_path, base_name)
         else (str (joinstr dir_path base_name), default_locale))"

section \<open>The main function\<close>

text \<open>
  \<^verbatim>\<open>main\<close> is modelled step by step. Its inputs are the project root
  (\<^verbatim>\<open>PROJECT_ROOT\<close>), the pair \<^verbatim>\<open>get_i18n_config()\<close> returned (the default
  locale and the dictionary \<^verbatim>\<open>locales_map\<close> of supported locales and their display
  names), the files \<^verbatim>\<open>os.walk\<close> enumerates over the scanned directories, each as its
  \<^verbatim>\<open>(root, file)\<close> pair in enumeration order, the string
  \<^verbatim>\<open>args.changed_files\<close>, and the translation backend
  \<^verbatim>\<open>translate_files\<close>. Informational \<^verbatim>\<open>print\<close> calls are left out; the two
  error diagnostics are kept as events, and a \<^verbatim>\<open>relative_to\<close> inside a
  \<^verbatim>\<open>print\<close> is kept for the \<^verbatim>\<open>ValueError\<close> it can raise. Directory creation
  and file writes are recorded as events and taken to succeed.
\<close>

type_synonym files_map = "(string, pure_path) dict"
type_synonym families = "(string, files_map) dict"

subsection \<open>Step 1: the document families\<close>

text \<open>
  The body of the innermost scan loop, for one \<^verbatim>\<open>(root, file)\<close> pair. A key that is
  not yet in \<^verbatim>\<open>doc_families\<close> is inserted with an empty dictionary, which the next
  statement fills at once.
\<close>

definition scan_file :: "string \<Rightarrow> string list \<Rightarrow> families \<Rightarrow> string \<times> string \<Rightarrow> families" where
  "scan_file default_locale supported_locales doc_families rf =
     (case rf of (walk_root, file) \<Rightarrow>
        if \<not> (endswith file ''.mdx'' \<or> endswith file ''.json'' \<or> endswith file ''.md'')
        then doc_families
        else
          (let file_path = joinstr (Path walk_root) file in
           case get_path_prefix_and_lang (str file_path) default_locale supported_locales of
             (path_prefix, lang) \<Rightarrow>
               (let files_map = (case map_of doc_families path_prefix of
                                   None \<Rightarrow> []
                                 | Some m \<Rightarrow> m)
                in setitem path_prefix (setitem lang file_path files_map) doc_families)))"

definition build_families :: "string \<Rightarrow> string list \<Rightarrow> (string \<times> string) list \<Rightarrow> families" where
  "build_families default_locale supported_locales walk =
     foldl (scan_file default_locale supported_locales) [] walk"

subsection \<open>Step 2: the changed files and the affected families\<close>

text \<open>
  The loop that turns \<^verbatim>\<open>args.changed_files\<close> into \<^verbatim>\<open>changed_files_list\<close>.
\<close>

definition parse_changed_files :: "pure_path \<Rightarrow> string \<Rightarrow> pure_path list" where
  "parse_changed_files PROJECT_ROOT changed_files =
     (let raw_paths = [strip p. p \<leftarrow> split_on CHR '','' changed_files, strip p \<noteq> []];
          project_root_name = name PROJECT_ROOT
      in map (\<lambda>raw_path_str.
                let path_obj = Path raw_path_str;
                    relative_path =
                      (if parts path_obj \<noteq> [] \<and> hd (parts path_obj) = project_root_name
                       then Path_segments (tl (parts path_obj))
                       else path_obj)
                in joinpath PROJECT_ROOT relative_path)
             raw_paths)"

text \<open>
  \<^verbatim>\<open>affected_families\<close>: the families with a file in the list, in the order of
  \<^verbatim>\<open>doc_families\<close>.
\<close>

definition affected_families :: "families \<Rightarrow> pure_path list \<Rightarrow> families" where
  "affected_families doc_families changed_files_list =
     [(prefix, files_map) \<leftarrow> doc_families.
        list_ex (\<lambda>path. path \<in> set changed_files_list) (map snd files_map)]"

text \<open>
  The whole of step 2 but its \<^verbatim>\<open>sys.exit(0)\<close>: the pair of
  \<^verbatim>\<open>changed_files_list\<close> and \<^verbatim>\<open>doc_families\<close> as step 3 finds them. The step is
  guarded by \<^verbatim>\<open>if args.changed_files:\<close>, the truth value of the argument string.
\<close>

definition filter_by_changes :: "pure_path \<Rightarrow> string \<Rightarrow> families \<Rightarrow> pure_path list \<times> families" where
  "filter_by_changes PROJECT_ROOT changed_files doc_families =
     (if changed_files \<noteq> [] then
        (let changed_files_list = parse_changed_files PROJECT_ROOT changed_files
         in (changed_files_list, affected_families doc_families changed_files_list))
      else ([], doc_families))"

subsection \<open>Step 3.1: the source of truth\<close>

datatype resolution =
    Source string pure_path
  | Skip_ambiguous "string list"
  | Skip_empty

text \<open>
  \<^verbatim>\<open>family_changed_files\<close>: the entries of the family whose path is in the list. The
  keys of \<^verbatim>\<open>files_map\<close> are distinct, so the comprehension keeps every such entry.
\<close>

definition family_changed_files :: "files_map \<Rightarrow> pure_path list \<Rightarrow> files_map" where
  "family_changed_files files_map changed_files_list =
     [(lang, path) \<leftarrow> files_map. path \<in> set changed_files_list]"

text \<open>
  The \<^verbatim>\<open>if\<close>/\<^verbatim>\<open>elif\<close> chain that sets \<^verbatim>\<open>source_of_truth_lang\<close> and
  \<^verbatim>\<open>source_of_truth_path\<close>, or prints an error and goes on to the next family
  (\<^verbatim>\<open>continue\<close>). A membership test and the subscript it guards are one
  \<^const>\<open>map_of\<close> lookup.
\<close>

definition resolve :: "string \<Rightarrow> files_map \<Rightarrow> pure_path list \<Rightarrow> resolution" where
  "resolve default_locale files_map changed_files_list =
     (let changed = family_changed_files files_map changed_files_list in
      case map_of changed default_locale of
        Some path \<Rightarrow> Source default_locale path
      | None \<Rightarrow>
          if length changed = 1 then
            (case hd changed of (lang, path) \<Rightarrow> Source lang path)
          else if length changed > 1 then Skip_ambiguous (keys changed)
          else
            (case map_of files_map default_locale of
               Some path \<Rightarrow> Source default_locale path
             | None \<Rightarrow>
                 if files_map \<noteq> [] then
                   (case hd files_map of (lang, path) \<Rightarrow> Source lang path)
                 else Skip_empty))"

subsection \<open>Step 3.2: the targets\<close>

definition targets_to_create :: "string list \<Rightarrow> files_map \<Rightarrow> string list" where
  "targets_to_create supported_locales files_map =
     [lang \<leftarrow> supported_locales. \<not> contains files_map lang]"

definition targets_to_update :: "string list \<Rightarrow> files_map \<Rightarrow> string \<Rightarrow> string list" where
  "targets_to_update supported_locales files_map source_of_truth_lang =
     [lang \<leftarrow> supported_locales. contains files_map lang \<and> lang \<noteq> source_of_truth_lang]"

subsection \<open>Step 3.3: the calls to the backend and the files written\<close>

text \<open>
  The keyword arguments of one call \<^verbatim>\<open>translate_files(...)\<close>.
\<close>

datatype call = Call
  (file_paths: "string list")
  (source_language: string)
  (source_language_full: string)
  (target_languages: "string list")
  (target_language_full: "string list")
  (write_to_existing_files: bool)

text \<open>
  What a run does to the outside, in order: a call to the backend, the creation of a
  directory with its parents (\<^verbatim>\<open>mkdir(parents=True, exist_ok=True)\<close>), the writing of a
  file, and the two error diagnostics of the resolver.
\<close>

datatype event =
    Translate call
  | Make_dirs pure_path
  | Write_file pure_path string
  | Print_ambiguous "string list"
  | Print_empty

text \<open>
  The exceptions a run can end with: a missing dictionary key, a \<^verbatim>\<open>relative_to\<close> on a
  path outside the project root, and whatever the backend raises (of a type \<open>'e\<close> of its
  own).
\<close>

datatype 'e failure = KeyError string | ValueError | Backend_error 'e

text \<open>
  The backend is not part of the script. It is a parameter: given the events so far and
  the call, it raises or returns a dictionary from locale to content.
\<close>

type_synonym 'e backend = "event list \<Rightarrow> call \<Rightarrow> 'e + (string, string) dict"

text \<open>\<^verbatim>\<open>[d[k] for k in ks]\<close>: the first missing key raises.\<close>

fun getitems :: "(string, 'v) dict \<Rightarrow> string list \<Rightarrow> string + 'v list" where
  "getitems d [] = Inr []"
| "getitems d (k # ks) =
     (case map_of d k of
        None \<Rightarrow> Inl k
      | Some v \<Rightarrow> (case getitems d ks of Inl k' \<Rightarrow> Inl k' | Inr vs \<Rightarrow> Inr (v # vs)))"

text \<open>The destination of a newly created file for the locale \<open>lang\<close>.\<close>

definition target_path :: "string \<Rightarrow> string list \<Rightarrow> string \<Rightarrow> pure_path \<Rightarrow> string \<Rightarrow> pure_path" where
  "target_path default_locale supported_locales prefix source_of_truth_path lang =
     (let source_suffix = suffix source_of_truth_path in
      if stem source_of_truth_path \<in> set supported_locales
      then joinstr (Path prefix) (lang @ source_suffix)
      else if lang = default_locale then Path (prefix @ source_suffix)
      else Path (prefix @ ''.'' @ lang @ source_suffix))"

text \<open>
  The loop over \<^verbatim>\<open>creation_results.items()\<close>. The \<^verbatim>\<open>print\<close> after the write
  calls \<^verbatim>\<open>target_path.relative_to(PROJECT_ROOT)\<close>.
\<close>

fun write_created ::
  "pure_path \<Rightarrow> string \<Rightarrow> string list \<Rightarrow> string \<Rightarrow> pure_path \<Rightarrow> event list
   \<Rightarrow> (string, string) dict \<Rightarrow> event list \<times> 'e failure option" where
  "write_created PROJECT_ROOT default_locale supported_locales prefix sot_path log [] = (log, None)"
| "write_created PROJECT_ROOT default_locale supported_locales prefix sot_path log
     ((lang, content) # rest) =
     (let target = target_path default_locale supported_locales prefix sot_path lang;
          log' = log @ [Make_dirs (parent target), Write_file target content]
      in if is_relative_to target PROJECT_ROOT
         then write_created PROJECT_ROOT default_locale supported_locales prefix sot_path log' rest
         else (log', Some ValueError))"

text \<open>
  (A) The creation of the missing locales. The arguments of the call are evaluated before
  the call, in the order they are written.
\<close>

definition create_missing ::
  "'e backend \<Rightarrow> pure_path \<Rightarrow> string \<Rightarrow> (string, string) dict \<Rightarrow> event list \<Rightarrow> string
   \<Rightarrow> string \<Rightarrow> pure_path \<Rightarrow> string list \<Rightarrow> event list \<times> 'e failure option" where
  "create_missing translate_files PROJECT_ROOT default_locale locales_map log prefix
     sot_lang sot_path to_create =
     (if to_create = [] then (log, None)
      else
        (case map_of locales_map sot_lang of
           None \<Rightarrow> (log, Some (KeyError sot_lang))
         | Some sot_full \<Rightarrow>
             (case getitems locales_map to_create of
                Inl k \<Rightarrow> (log, Some (KeyError k))
              | Inr target_full \<Rightarrow>
                  (let c = Call [str sot_path] sot_lang sot_full to_create target_full False in
                   case translate_files log c of
                     Inl e \<Rightarrow> (log @ [Translate c], Some (Backend_error e))
                   | Inr creation_results \<Rightarrow>
                       write_created PROJECT_ROOT default_locale (keys locales_map) prefix
                         sot_path (log @ [Translate c]) creation_results))))"

text \<open>(B) The update of the locales that exist.\<close>

definition update_existing ::
  "'e backend \<Rightarrow> (string, string) dict \<Rightarrow> event list \<Rightarrow> files_map \<Rightarrow> string \<Rightarrow> pure_path
   \<Rightarrow> string list \<Rightarrow> event list \<times> 'e failure option" where
  "update_existing translate_files locales_map log files_map sot_lang sot_path to_update =
     (if to_update = [] then (log, None)
      else
        (case getitems files_map to_update of
           Inl k \<Rightarrow> (log, Some (KeyError k))
         | Inr target_paths \<Rightarrow>
             (case map_of locales_map sot_lang of
                None \<Rightarrow> (log, Some (KeyError sot_lang))
              | Some sot_full \<Rightarrow>
                  (case getitems locales_map to_update of
                     Inl k \<Rightarrow> (log, Some (KeyError k))
                   | Inr target_full \<Rightarrow>
                       (let c = Call (str sot_path # map str target_paths) sot_lang sot_full
                                  to_update target_full True in
                        case translate_files log c of
                          Inl e \<Rightarrow> (log @ [Translate c], Some (Backend_error e))
                        | Inr _ \<Rightarrow> (log @ [Translate c], None))))))"

text \<open>
  The body of the loop of step 3 for one family. \<open>None\<close> as the second component means
  the loop goes on with the next family (the body ended, or reached a
  \<^verbatim>\<open>continue\<close>); \<open>Some\<close> is the exception that left it.
\<close>

definition process_family ::
  "'e backend \<Rightarrow> pure_path \<Rightarrow> string \<Rightarrow> (string, string) dict \<Rightarrow> pure_path list
   \<Rightarrow> event list \<Rightarrow> string \<Rightarrow> files_map \<Rightarrow> event list \<times> 'e failure option" where
  "process_family translate_files PROJECT_ROOT default_locale locales_map changed_files_list
     log prefix files_map =
     (case resolve default_locale files_map changed_files_list of
        Skip_ambiguous langs \<Rightarrow> (log @ [Print_ambiguous langs], None)
      | Skip_empty \<Rightarrow> (log @ [Print_empty], None)
      | Source sot_lang sot_path \<Rightarrow>
          if \<not> is_relative_to sot_path PROJECT_ROOT then (log, Some ValueError)
          else
            (let supported_locales = keys locales_map;
                 to_create = targets_to_create supported_locales files_map;
                 to_update = targets_to_update supported_locales files_map sot_lang
             in case create_missing translate_files PROJECT_ROOT default_locale locales_map
                       log prefix sot_lang sot_path to_create of
                  (log1, Some err) \<Rightarrow> (log1, Some err)
                | (log1, None) \<Rightarrow>
                    update_existing translate_files locales_map log1 files_map sot_lang
                      sot_path to_update))"

text \<open>The loop of step 3: an exception in one family ends it.\<close>

fun process_families ::
  "'e backend \<Rightarrow> pure_path \<Rightarrow> string \<Rightarrow> (string, string) dict \<Rightarrow> pure_path list
   \<Rightarrow> event list \<Rightarrow> families \<Rightarrow> event list \<times> 'e failure option" where
  "process_families translate_files PROJECT_ROOT default_locale locales_map
     changed_files_list log [] = (log, None)"
| "process_families translate_files PROJECT_ROOT default_locale locales_map
     changed_files_list log ((prefix, files_map) # rest) =
     (case process_family translate_files PROJECT_ROOT default_locale locales_map
             changed_files_list log prefix files_map of
        (log', Some err) \<Rightarrow> (log', Some err)
      | (log', None) \<Rightarrow>
          process_families translate_files PROJECT_ROOT default_locale locales_map
            changed_files_list log' rest)"

subsection \<open>The run\<close>

text \<open>
  How \<^verbatim>\<open>main\<close> ends: it returns, it calls \<^verbatim>\<open>sys.exit\<close> with a status, or an
  exception leaves it.
\<close>

datatype 'e outcome = Completed | Exit nat | Raised "'e failure"

definition main ::
  "'e backend \<Rightarrow> pure_path \<Rightarrow> string \<Rightarrow> (string, string) dict \<Rightarrow> (string \<times> string) list
   \<Rightarrow> string \<Rightarrow> event list \<times> 'e outcome" where
  "main translate_files PROJECT_ROOT default_locale locales_map walk changed_files =
     (let supported_locales = keys locales_map;
          scanned = build_families default_locale supported_locales walk
      in case filter_by_changes PROJECT_ROOT changed_files scanned of
           (changed_files_list, doc_families) \<Rightarrow>
             if changed_files \<noteq> [] \<and> doc_families = [] then ([], Exit 0)
             else
               (case process_families translate_files PROJECT_ROOT default_locale locales_map
                       changed_files_list [] doc_families of
                  (log, Some err) \<Rightarrow> (log, Raised err)
                | (log, None) \<Rightarrow> (log, Completed)))"

section \<open>An invariant of the scan\<close>

text \<open>
  What the scan keeps true of every family: it has an entry, and its keys are supported
  locales or the default locale.
\<close>

definition family_ok :: "string \<Rightarrow> string list \<Rightarrow> files_map \<Rightarrow> bool" where
  "family_ok d S fm = (fm \<noteq> [] \<and> set (keys fm) \<subseteq> insert d (set S))"

section \<open>Example data\<close>

text \<open>
  A small project rooted at \<open>/p\<close> with the locales \<open>en\<close> (the default), \<open>zh\<close> and
  \<open>ko\<close>, used to instantiate the theorems below.
\<close>

definition ex_root :: pure_path where
  "ex_root = PurePath ''/'' [''p'']"

definition ex_A :: pure_path where
  "ex_A = PurePath ''/'' [''p'', ''content'', ''docs'', ''index.mdx'']"

definition ex_B :: pure_path where
  "ex_B = PurePath ''/'' [''p'', ''content'', ''docs'', ''index.zh.mdx'']"

definition ex_C :: pure_path where
  "ex_C = PurePath ''/'' [''p'', ''content'', ''docs'', ''index.fr.mdx'']"

definition ex_locales :: "(string, string) dict" where
  "ex_locales = [(''en'', ''English''), (''zh'', ''Chinese''), (''ko'', ''Korean'')]"

text \<open>A backend that always answers with no content, and one that always fails.\<close>

definition ex_silent :: "unit backend" where
  "ex_silent = (\<lambda>log c. Inr [])"

definition ex_failing :: "unit backend" where
  "ex_failing = (\<lambda>log c. Inl ())"

text \<open>A backend that answers the creation calls with no content and fails on update calls.\<close>

definition ex_update_failing :: "unit backend" where
  "ex_update_failing = (\<lambda>log c. if write_to_existing_files c then Inl () else Inr [])"

text \<open>Two more files of the example project, and what the scan enumerates there.\<close>

definition ex_M :: pure_path where
  "ex_M = PurePath ''/'' [''p'', ''messages'', ''en.json'']"

definition ex_walk :: "(string \<times> string) list" where
  "ex_walk = [(''/p/content/docs'', ''index.mdx''), (''/p/messages'', ''en.json'')]"

section \<open>Lemmas about the dictionaries of a family\<close>

lemma filter_single:
  assumes "distinct xs" "x \<in> set xs" "P x" "\<And>y. y \<in> set xs \<Longrightarrow> P y \<Longrightarrow> y = x"
  shows "filter P xs = [x]"
proof -
  from assms(2) obtain ys zs where xs: "xs = ys @ x # zs"
    by (auto simp: in_set_conv_decomp)
  have "\<not> P y" if "y \<in> set ys" for y
  proof
    assume "P y"
    with assms(4) that xs have "y = x" by simp
    with that xs assms(1) show False by simp
  qed
  then have ys: "filter P ys = []" by (simp add: filter_empty_conv)
  have "\<not> P y" if "y \<in> set zs" for y
  proof
    assume "P y"
    with assms(4) that xs have "y = x" by simp
    with that xs assms(1) show False by simp
  qed
  then have zs: "filter P zs = []" by (simp add: filter_empty_conv)
  show ?thesis by (simp add: xs ys zs assms(3))
qed

lemma changed_Cons:
  "family_changed_files ((l, p) # fm) ch =
     (if p \<in> set ch then (l, p) # family_changed_files fm ch else family_changed_files fm ch)"
  by (simp add: family_changed_files_def)

lemma changed_subset: "set (family_changed_files fm ch) \<subseteq> set fm"
  by (simp add: family_changed_files_def)

lemma map_of_changed_None:
  assumes "k \<notin> fst ` set fm"
  shows "map_of (family_changed_files fm ch) k = None"
proof -
  have "fst ` set (family_changed_files fm ch) \<subseteq> fst ` set fm"
    using changed_subset by (rule image_mono)
  with assms have "k \<notin> fst ` set (family_changed_files fm ch)" by blast
  then show ?thesis by (simp add: map_of_eq_None_iff)
qed

lemma map_of_changed:
  assumes "distinct (map fst fm)"
  shows "map_of (family_changed_files fm ch) k =
     (case map_of fm k of None \<Rightarrow> None | Some v \<Rightarrow> if v \<in> set ch then Some v else None)"
  using assms
proof (induction fm)
  case Nil
  show ?case by (simp add: family_changed_files_def)
next
  case (Cons a fm)
  obtain l p where a: "a = (l, p)" by (cases a)
  from Cons.prems a have nl: "l \<notin> fst ` set fm" and d: "distinct (map fst fm)" by simp_all
  note IH = Cons.IH[OF d]
  show ?case
  proof (cases "k = l")
    case True
    with nl have "map_of (family_changed_files fm ch) k = None"
      by (simp add: map_of_changed_None)
    with True show ?thesis by (simp add: a changed_Cons)
  next
    case False
    with IH show ?thesis by (simp add: a changed_Cons)
  qed
qed

lemma no_changed:
  assumes "\<forall>l' p'. (l', p') \<in> set fm \<longrightarrow> p' \<notin> set ch"
  shows "family_changed_files fm ch = []"
  unfolding family_changed_files_def filter_empty_conv using assms by fast

lemma resolve_Source_mem:
  assumes "resolve d fm ch = Source l p"
  shows "(l, p) \<in> set fm"
proof -
  let ?c = "family_changed_files fm ch"
  show ?thesis
  proof (cases "map_of ?c d")
    case (Some q)
    with assms have "l = d" "p = q" by (simp_all add: resolve_def)
    with Some have "(l, p) \<in> set ?c" by (simp add: map_of_SomeD)
    with changed_subset show ?thesis by blast
  next
    case None
    note n = None
    show ?thesis
    proof (cases "length ?c = 1")
      case True
      then have ne: "?c \<noteq> []" by auto
      obtain l' p' where h: "hd ?c = (l', p')" by (cases "hd ?c")
      with assms n True have "l = l'" "p = p'" by (simp_all add: resolve_def)
      with h ne have "(l, p) \<in> set ?c" using hd_in_set[of ?c] by simp
      with changed_subset show ?thesis by blast
    next
      case False
      note f = False
      show ?thesis
      proof (cases "length ?c > 1")
        case True
        with assms n f show ?thesis by (simp add: resolve_def)
      next
        case False
        note g = False
        show ?thesis
        proof (cases "map_of fm d")
          case (Some q)
          with assms n f g have "l = d" "p = q" by (simp_all add: resolve_def)
          with Some show ?thesis by (simp add: map_of_SomeD)
        next
          case None
          note m = None
          show ?thesis
          proof (cases "fm = []")
            case True
            with assms n f g m show ?thesis by (simp add: resolve_def)
          next
            case False
            obtain l' p' where h: "hd fm = (l', p')" by (cases "hd fm")
            with assms n f g m False have "l = l'" "p = p'" by (simp_all add: resolve_def)
            with h False show ?thesis using hd_in_set[of fm] by simp
          qed
        qed
      qed
    qed
  qed
qed

lemma two_members_length:
  assumes "x \<in> set xs" "y \<in> set xs" "x \<noteq> y"
  shows "length xs > 1"
proof -
  have "card {x, y} \<le> card (set xs)" using assms by (intro card_mono) simp_all
  also have "\<dots> \<le> length xs" by (rule card_length)
  finally show ?thesis using assms(3) by simp
qed

section \<open>Lemmas about the scan\<close>

lemma setitem_nonempty: "setitem k v d \<noteq> []"
  by (cases d) simp_all

lemma set_setitem: "set (setitem k v d) \<subseteq> insert (k, v) (set d)"
proof (induction d)
  case Nil
  show ?case by simp
next
  case (Cons a d)
  then show ?case by (cases "fst a = k") auto
qed

lemma keys_setitem: "set (keys (setitem k v d)) \<subseteq> insert k (set (keys d))"
proof -
  have "fst ` set (setitem k v d) \<subseteq> fst ` insert (k, v) (set d)"
    using set_setitem by (rule image_mono)
  then show ?thesis by (simp add: keys_def)
qed

lemma classify_lang: "snd (get_path_prefix_and_lang p d S) \<in> insert d (set S)"
  by (simp add: get_path_prefix_and_lang_def Let_def)

lemma scan_file_ok:
  assumes inv: "\<And>prefix fm. (prefix, fm) \<in> set fams \<Longrightarrow> family_ok d S fm"
    and mem: "(prefix, fm) \<in> set (scan_file d S fams rf)"
  shows "family_ok d S fm"
proof -
  obtain walk_root fname where rf: "rf = (walk_root, fname)" by (cases rf)
  show ?thesis
  proof (cases "endswith fname ''.mdx'' \<or> endswith fname ''.json'' \<or> endswith fname ''.md''")
    case False
    with mem rf have "(prefix, fm) \<in> set fams" by (simp add: scan_file_def)
    then show ?thesis by (rule inv)
  next
    case True
    let ?fp = "joinstr (Path walk_root) fname"
    obtain k lang where c: "get_path_prefix_and_lang (str ?fp) d S = (k, lang)"
      by (cases "get_path_prefix_and_lang (str ?fp) d S")
    have lang: "lang \<in> insert d (set S)"
      using classify_lang[of "str ?fp" d S] c by simp
    let ?old = "case map_of fams k of None \<Rightarrow> [] | Some m \<Rightarrow> m"
    have eq: "scan_file d S fams rf = setitem k (setitem lang ?fp ?old) fams"
      using True rf c by (auto simp add: scan_file_def Let_def)
    have old: "set (keys ?old) \<subseteq> insert d (set S)"
    proof (cases "map_of fams k")
      case None
      then show ?thesis by (simp add: keys_def)
    next
      case (Some m)
      then have "(k, m) \<in> set fams" by (rule map_of_SomeD)
      then have "family_ok d S m" by (rule inv)
      with Some show ?thesis by (simp add: family_ok_def)
    qed
    have "set (keys (setitem lang ?fp ?old)) \<subseteq> insert lang (set (keys ?old))"
      by (rule keys_setitem)
    with old lang have "set (keys (setitem lang ?fp ?old)) \<subseteq> insert d (set S)"
      by blast
    then have new: "family_ok d S (setitem lang ?fp ?old)"
      by (simp add: family_ok_def setitem_nonempty)
    from mem eq have "(prefix, fm) \<in> set (setitem k (setitem lang ?fp ?old) fams)"
      by simp
    with set_setitem[of k "setitem lang ?fp ?old" fams]
    have "(prefix, fm) = (k, setitem lang ?fp ?old) \<or> (prefix, fm) \<in> set fams" by blast
    then show ?thesis
    proof
      assume "(prefix, fm) = (k, setitem lang ?fp ?old)"
      with new show ?thesis by simp
    next
      assume "(prefix, fm) \<in> set fams"
      then show ?thesis by (rule inv)
    qed
  qed
qed

lemma foldl_scan_ok:
  assumes "\<And>prefix fm. (prefix, fm) \<in> set fams \<Longrightarrow> family_ok d S fm"
    and "(prefix, fm) \<in> set (foldl (scan_file d S) fams walk)"
  shows "family_ok d S fm"
  using assms
proof (induction walk arbitrary: fams)
  case Nil
  then show ?case by simp
next
  case (Cons rf walk)
  have "\<And>prefix fm. (prefix, fm) \<in> set (scan_file d S fams rf) \<Longrightarrow> family_ok d S fm"
    using scan_file_ok[of fams d S] Cons.prems(1) by blast
  moreover have "(prefix, fm) \<in> set (foldl (scan_file d S) (scan_file d S fams rf) walk)"
    using Cons.prems(2) by simp
  ultimately show ?case by (rule Cons.IH)
qed

lemma build_families_ok:
  assumes "(prefix, fm) \<in> set (build_families d S walk)"
  shows "family_ok d S fm"
proof (rule foldl_scan_ok)
  show "(prefix, fm) \<in> set (foldl (scan_file d S) [] walk)"
    using assms by (simp add: build_families_def)
qed simp

lemma affected_subset: "set (affected_families fams ch) \<subseteq> set fams"
  by (simp add: affected_families_def)

lemma filter_by_changes_subset: "set (snd (filter_by_changes R cf fams)) \<subseteq> set fams"
  using affected_subset by (simp add: filter_by_changes_def Let_def)

lemma resolve_Skip_empty:
  assumes "resolve d fm ch = Skip_empty"
  shows "fm = []"
proof (rule ccontr)
  assume ne: "fm \<noteq> []"
  obtain l p where h: "hd fm = (l, p)" by (cases "hd fm")
  let ?c = "family_changed_files fm ch"
  obtain l' p' where h': "hd ?c = (l', p')" by (cases "hd ?c")
  from assms ne h h' show False
    by (simp add: resolve_def Let_def split: option.splits if_splits)
qed

section \<open>Lemmas about the loop over the families\<close>

lemma getitems_total:
  assumes "set ks \<subseteq> set (keys d)"
  shows "\<exists>vs. getitems d ks = Inr vs"
  using assms
proof (induction ks)
  case Nil
  show ?case by simp
next
  case (Cons k ks)
  from Cons.prems have "k \<in> fst ` set d" by (simp add: keys_def)
  then obtain v where v: "map_of d k = Some v"
    by (cases "map_of d k") (simp_all add: map_of_eq_None_iff)
  from Cons obtain vs where "getitems d ks = Inr vs" by auto
  with v show ?case by simp
qed

lemma write_created_no_KeyError:
  "snd (write_created R d S prefix sot log results) \<noteq> Some (KeyError k)"
proof (induction results arbitrary: log)
  case Nil
  show ?case by simp
next
  case (Cons a results)
  obtain lang content where a: "a = (lang, content)" by (cases a)
  show ?case using Cons.IH by (simp add: a Let_def)
qed

lemma create_missing_no_KeyError:
  assumes "contains lm sot_lang" and "set to_create \<subseteq> set (keys lm)"
  shows "snd (create_missing tf R d lm log prefix sot_lang sot_path to_create) \<noteq> Some (KeyError k)"
proof (cases "to_create = []")
  case True
  then show ?thesis by (simp add: create_missing_def)
next
  case False
  from assms(1) obtain full where full: "map_of lm sot_lang = Some full"
    by (cases "map_of lm sot_lang") (simp_all add: contains_def keys_def map_of_eq_None_iff)
  from getitems_total[OF assms(2)] obtain fulls where fulls: "getitems lm to_create = Inr fulls"
    by blast
  let ?c = "Call [str sot_path] sot_lang full to_create fulls False"
  show ?thesis
  proof (cases "tf log ?c")
    case (Inl e)
    with False full fulls show ?thesis by (simp add: create_missing_def)
  next
    case (Inr res)
    with False full fulls show ?thesis
      by (simp add: create_missing_def write_created_no_KeyError)
  qed
qed

lemma update_existing_no_KeyError:
  assumes "contains lm sot_lang" and "set to_update \<subseteq> set (keys lm)"
    and "set to_update \<subseteq> set (keys fm)"
  shows "snd (update_existing tf lm log fm sot_lang sot_path to_update) \<noteq> Some (KeyError k)"
proof (cases "to_update = []")
  case True
  then show ?thesis by (simp add: update_existing_def)
next
  case False
  from assms(1) obtain full where full: "map_of lm sot_lang = Some full"
    by (cases "map_of lm sot_lang") (simp_all add: contains_def keys_def map_of_eq_None_iff)
  from getitems_total[OF assms(2)] obtain fulls where fulls: "getitems lm to_update = Inr fulls"
    by blast
  from getitems_total[OF assms(3)] obtain paths where paths: "getitems fm to_update = Inr paths"
    by blast
  let ?c = "Call (str sot_path # map str paths) sot_lang full to_update fulls True"
  show ?thesis
  proof (cases "tf log ?c")
    case (Inl e)
    with False full fulls paths show ?thesis by (simp add: update_existing_def)
  next
    case (Inr res)
    with False full fulls paths show ?thesis by (simp add: update_existing_def)
  qed
qed

lemma process_family_no_KeyError:
  assumes "set (keys fm) \<subseteq> set (keys lm)"
  shows "snd (process_family tf R d lm ch log prefix fm) \<noteq> Some (KeyError k)"
proof (cases "resolve d fm ch")
  case (Skip_ambiguous langs)
  then show ?thesis by (simp add: process_family_def)
next
  case Skip_empty
  then show ?thesis by (simp add: process_family_def)
next
  case (Source l p)
  then have "(l, p) \<in> set fm" by (rule resolve_Source_mem)
  then have "l \<in> set (keys fm)" by (force simp: keys_def)
  with assms have l: "contains lm l" by (auto simp: contains_def)
  let ?S = "keys lm"
  have c: "set (targets_to_create ?S fm) \<subseteq> set (keys lm)"
    by (simp add: targets_to_create_def)
  have u: "set (targets_to_update ?S fm l) \<subseteq> set (keys lm)"
    and u': "set (targets_to_update ?S fm l) \<subseteq> set (keys fm)"
    by (auto simp add: targets_to_update_def contains_def)
  show ?thesis
  proof (cases "is_relative_to p R")
    case False
    with Source show ?thesis by (simp add: process_family_def)
  next
    case True
    obtain log1 r1 where cm:
      "create_missing tf R d lm log prefix l p (targets_to_create ?S fm) = (log1, r1)"
      by (cases "create_missing tf R d lm log prefix l p (targets_to_create ?S fm)")
    from create_missing_no_KeyError[OF l c, of tf R d log prefix p k] cm
    have r1: "r1 \<noteq> Some (KeyError k)" by simp
    show ?thesis
    proof (cases r1)
      case None
      with Source True cm show ?thesis
        by (simp add: process_family_def Let_def update_existing_no_KeyError[OF l u u'])
    next
      case (Some err)
      with Source True cm r1 show ?thesis
        by (simp add: process_family_def Let_def)
    qed
  qed
qed

lemma process_families_no_KeyError:
  assumes "\<And>prefix fm. (prefix, fm) \<in> set fams \<Longrightarrow> set (keys fm) \<subseteq> set (keys lm)"
  shows "snd (process_families tf R d lm ch log fams) \<noteq> Some (KeyError k)"
  using assms
proof (induction fams arbitrary: log)
  case Nil
  show ?case by simp
next
  case (Cons a fams)
  obtain prefix fm where a: "a = (prefix, fm)" by (cases a)
  have "set (keys fm) \<subseteq> set (keys lm)"
    by (rule Cons.prems[of prefix]) (simp add: a)
  note pf = process_family_no_KeyError[OF this, of tf R d ch log prefix k]
  obtain log' r where p: "process_family tf R d lm ch log prefix fm = (log', r)"
    by (cases "process_family tf R d lm ch log prefix fm")
  have IH: "snd (process_families tf R d lm ch log' fams) \<noteq> Some (KeyError k)"
  proof (rule Cons.IH)
    fix prefix' fm'
    assume "(prefix', fm') \<in> set fams"
    then have "(prefix', fm') \<in> set (a # fams)" by simp
    then show "set (keys fm') \<subseteq> set (keys lm)" by (rule Cons.prems)
  qed
  show ?case
  proof (cases r)
    case None
    with p IH show ?thesis by (simp add: a)
  next
    case (Some err)
    with p pf show ?thesis by (simp add: a)
  qed
qed

lemma main_no_KeyError:
  assumes "d \<in> set (keys lm)"
  shows "snd (main tf R d lm walk cf) \<noteq> Raised (KeyError k)"
proof -
  let ?scanned = "build_families d (keys lm) walk"
  obtain chl fams where f: "filter_by_changes R cf ?scanned = (chl, fams)"
    by (cases "filter_by_changes R cf ?scanned")
  have sub: "set fams \<subseteq> set ?scanned"
    using filter_by_changes_subset[of R cf ?scanned] f by simp
  have ok: "set (keys fm) \<subseteq> set (keys lm)" if "(prefix, fm) \<in> set fams" for prefix fm
  proof -
    from that sub have "(prefix, fm) \<in> set ?scanned" by blast
    then have "family_ok d (keys lm) fm" by (rule build_families_ok)
    with assms show ?thesis by (auto simp: family_ok_def)
  qed
  obtain log r where p: "process_families tf R d lm chl [] fams = (log, r)"
    by (cases "process_families tf R d lm chl [] fams")
  from process_families_no_KeyError[of fams lm tf R d chl "[]" k] ok p
  have r: "r \<noteq> Some (KeyError k)" by simp
  show ?thesis
  proof (cases "cf \<noteq> [] \<and> fams = []")
    case True
    with f show ?thesis by (simp add: main_def Let_def)
  next
    case False
    with f p r show ?thesis by (cases r) (auto simp add: main_def Let_def)
  qed
qed

lemma process_families_append:
  assumes "process_families tf R d lm ch log pre = (log1, None)"
  shows "process_families tf R d lm ch log (pre @ fams) = process_families tf R d lm ch log1 fams"
  using assms
proof (induction pre arbitrary: log)
  case Nil
  then show ?case by simp
next
  case (Cons a pre)
  obtain prefix fm where a: "a = (prefix, fm)" by (cases a)
  obtain log' r where p: "process_family tf R d lm ch log prefix fm = (log', r)"
    by (cases "process_family tf R d lm ch log prefix fm")
  show ?case
  proof (cases r)
    case None
    with Cons.prems p a have "process_families tf R d lm ch log' pre = (log1, None)" by simp
    then have "process_families tf R d lm ch log' (pre @ fams)
        = process_families tf R d lm ch log1 fams" by (rule Cons.IH)
    with None p a show ?thesis by simp
  next
    case (Some err)
    with Cons.prems p a show ?thesis by simp
  qed
qed

lemma write_created_exact:
  fixes R d S prefix sot
  defines "ok \<equiv> \<lambda>(lang, content :: string). is_relative_to (target_path d S prefix sot lang) R"
    and "ev \<equiv> \<lambda>(lang, content). [Make_dirs (parent (target_path d S prefix sot lang)),
                                    Write_file (target_path d S prefix sot lang) content]"
  shows "write_created R d S prefix sot log results
       = (log @ concat (map ev (take (Suc (length (takeWhile ok results))) results)),
          if length (takeWhile ok results) = length results then None else Some ValueError)"
proof (induction results arbitrary: log)
  case Nil
  show ?case by simp
next
  case (Cons a results)
  obtain lang content where a: "a = (lang, content)" by (cases a)
  show ?case
  proof (cases "ok a")
    case False
    then have "\<not> is_relative_to (target_path d S prefix sot lang) R"
      by (simp add: ok_def a)
    with False show ?thesis by (simp add: a Let_def ev_def)
  next
    case True
    then have r: "is_relative_to (target_path d S prefix sot lang) R"
      by (simp add: ok_def a)
    have e: "ev a = [Make_dirs (parent (target_path d S prefix sot lang)),
                     Write_file (target_path d S prefix sot lang) content]"
      by (simp add: ev_def a)
    have "write_created R d S prefix sot log (a # results)
        = write_created R d S prefix sot (log @ ev a) results"
      using r by (simp add: a Let_def ev_def)
    also note Cons.IH[of "log @ ev a"]
    finally show ?thesis using True by simp
  qed
qed

lemma write_created_extends:
  "\<exists>m. fst (write_created R d S prefix sot log results :: event list \<times> 'e failure option)
          = log @ m"
  by (simp add: write_created_exact)

lemma create_missing_extends:
  "\<exists>m. fst (create_missing tf R d lm log prefix l p tc) = log @ m"
proof (cases "tc = []")
  case True
  then show ?thesis by (simp add: create_missing_def)
next
  case False
  note ne = False
  show ?thesis
  proof (cases "map_of lm l")
    case None
    with ne show ?thesis by (simp add: create_missing_def)
  next
    case (Some full)
    note f = Some
    show ?thesis
    proof (cases "getitems lm tc")
      case (Inl k)
      with ne f show ?thesis by (simp add: create_missing_def)
    next
      case (Inr fulls)
      note g = Inr
      let ?c = "Call [str p] l full tc fulls False"
      show ?thesis
      proof (cases "tf log ?c")
        case (Inl e)
        with ne f g show ?thesis by (simp add: create_missing_def)
      next
        case (Inr res)
        from write_created_extends[of R d "keys lm" prefix p "log @ [Translate ?c]" res]
        obtain m where "fst (write_created R d (keys lm) prefix p (log @ [Translate ?c]) res
            :: event list \<times> 'a failure option) = (log @ [Translate ?c]) @ m"
          by blast
        with ne f g Inr show ?thesis by (simp add: create_missing_def)
      qed
    qed
  qed
qed

lemma update_existing_extends:
  "\<exists>m. fst (update_existing tf lm log fm l p tu) = log @ m"
  by (simp add: update_existing_def Let_def split: sum.splits option.splits)

lemma process_family_extends:
  "\<exists>m. fst (process_family tf R d lm ch log prefix fm) = log @ m"
proof (cases "resolve d fm ch")
  case (Skip_ambiguous langs)
  then show ?thesis by (simp add: process_family_def)
next
  case Skip_empty
  then show ?thesis by (simp add: process_family_def)
next
  case (Source l p)
  show ?thesis
  proof (cases "is_relative_to p R")
    case False
    with Source show ?thesis by (simp add: process_family_def)
  next
    case True
    let ?tc = "targets_to_create (keys lm) fm"
    let ?tu = "targets_to_update (keys lm) fm l"
    obtain log1 r1 where cm: "create_missing tf R d lm log prefix l p ?tc = (log1, r1)"
      by (cases "create_missing tf R d lm log prefix l p ?tc")
    from create_missing_extends[of tf R d lm log prefix l p ?tc] cm
    obtain m1 where m1: "log1 = log @ m1" by auto
    show ?thesis
    proof (cases r1)
      case (Some err)
      with Source True cm m1 show ?thesis by (simp add: process_family_def Let_def)
    next
      case None
      from update_existing_extends[of tf lm log1 fm l p ?tu]
      obtain m2 where "fst (update_existing tf lm log1 fm l p ?tu) = log1 @ m2" by blast
      with Source True cm m1 None show ?thesis by (simp add: process_family_def Let_def)
    qed
  qed
qed

lemma process_families_extends:
  "\<exists>m. fst (process_families tf R d lm ch log fams) = log @ m"
proof (induction fams arbitrary: log)
  case Nil
  show ?case by simp
next
  case (Cons a fams)
  obtain prefix fm where a: "a = (prefix, fm)" by (cases a)
  obtain log1 r where p: "process_family tf R d lm ch log prefix fm = (log1, r)"
    by (cases "process_family tf R d lm ch log prefix fm")
  from process_family_extends[of tf R d lm ch log prefix fm] p
  obtain m1 where m1: "log1 = log @ m1" by auto
  show ?case
  proof (cases r)
    case (Some err)
    with p a m1 show ?thesis by simp
  next
    case None
    from Cons.IH[of log1] obtain m2 where
      "fst (process_families tf R d lm ch log1 fams) = log1 @ m2" by blast
    with p a m1 None show ?thesis by simp
  qed
qed

lemma main_raises:
  assumes "filter_by_changes R cf (build_families d (keys lm) walk) = (chl, fams)"
    and "process_families tf R d lm chl [] fams = (log', Some err)"
  shows "main tf R d lm walk cf = (log', Raised err)"
proof -
  from assms(2) have "fams \<noteq> []" by auto
  with assms show ?thesis by (simp add: main_def Let_def)
qed

section \<open>The example project, evaluated\<close>

lemma ex_build:
  "build_families ''en'' (keys ex_locales) ex_walk
     = [(''/p/content/docs/index'', [(''en'', ex_A)]), (''/p/messages'', [(''en'', ex_M)])]"
  by code_simp

lemma ex_fail:
  "main ex_failing ex_root ''en'' ex_locales ex_walk []
     = ([Translate (Call [''/p/content/docs/index.mdx''] ''en'' ''English'' [''zh'', ''ko'']
                      [''Chinese'', ''Korean''] False)],
        Raised (Backend_error ()))"
  by code_simp

lemma ex_keyerror:
  "main ex_silent ex_root ''en'' [(''zh'', ''Chinese'')] [(''/p/content/docs'', ''index.mdx'')] []
     = ([], Raised (KeyError ''en''))"
  by code_simp

lemma ex_filter:
  "filter_by_changes ex_root '','' [(''/p/content/docs/index'', [(''en'', ex_A)])] = ([], [])"
  by code_simp

section \<open>The claims\<close>

subsection \<open>C1: the decision order of the resolver\<close>

text \<open>
  Claim C1. For a family \<open>fm\<close> (a dictionary, so its keys are distinct) and a list \<open>ch\<close>
  of changed files: when the file of the default locale \<open>d\<close> is in \<open>ch\<close> it is the source
  of truth; else when exactly one entry of the family has its file in \<open>ch\<close>, that entry is;
  else when no entry has, the entry of the default locale is when there is one, and the
  first entry of the family otherwise.
\<close>

theorem resolve_decision_order:
  assumes "distinct (keys fm)"
  shows "((d, p) \<in> set fm \<and> p \<in> set ch \<longrightarrow> resolve d fm ch = Source d p)
    \<and> ((\<forall>q. (d, q) \<in> set fm \<longrightarrow> q \<notin> set ch) \<and> (l, p) \<in> set fm \<and> p \<in> set ch
         \<and> (\<forall>l' p'. (l', p') \<in> set fm \<and> p' \<in> set ch \<longrightarrow> (l', p') = (l, p))
        \<longrightarrow> resolve d fm ch = Source l p)
    \<and> ((\<forall>l' p'. (l', p') \<in> set fm \<longrightarrow> p' \<notin> set ch) \<and> (d, p) \<in> set fm
        \<longrightarrow> resolve d fm ch = Source d p)
    \<and> ((\<forall>l' p'. (l', p') \<in> set fm \<longrightarrow> p' \<notin> set ch) \<and> d \<notin> set (keys fm) \<and> fm = (l, p) # rest
        \<longrightarrow> resolve d fm ch = Source l p)"
proof -
  have dk: "distinct (map fst fm)" using assms by (simp add: keys_def)
  then have dfm: "distinct fm" by (simp add: distinct_map)
  note mo = map_of_changed[OF dk]
  have r1: "resolve d fm ch = Source d p" if "(d, p) \<in> set fm \<and> p \<in> set ch"
  proof -
    from that have "map_of fm d = Some p" "p \<in> set ch" using dk by auto
    then show ?thesis by (simp add: resolve_def mo)
  qed
  have r2: "resolve d fm ch = Source l p"
    if a: "(\<forall>q. (d, q) \<in> set fm \<longrightarrow> q \<notin> set ch) \<and> (l, p) \<in> set fm \<and> p \<in> set ch
         \<and> (\<forall>l' p'. (l', p') \<in> set fm \<and> p' \<in> set ch \<longrightarrow> (l', p') = (l, p))"
  proof -
    have "filter (\<lambda>(lang, path). path \<in> set ch) fm = [(l, p)]"
    proof (rule filter_single[OF dfm])
      show "(l, p) \<in> set fm" using a by blast
      show "case (l, p) of (lang, path) \<Rightarrow> path \<in> set ch" using a by simp
      show "y = (l, p)" if "y \<in> set fm" "case y of (lang, path) \<Rightarrow> path \<in> set ch" for y
      proof -
        obtain l' p' where y: "y = (l', p')" by (cases y)
        with that a show ?thesis by simp
      qed
    qed
    then have "family_changed_files fm ch = [(l, p)]"
      by (simp add: family_changed_files_def)
    moreover have "map_of (family_changed_files fm ch) d = None"
    proof (cases "map_of fm d")
      case None
      then show ?thesis by (simp add: mo)
    next
      case (Some q)
      then have "(d, q) \<in> set fm" by (rule map_of_SomeD)
      with a have "q \<notin> set ch" by blast
      with Some show ?thesis by (simp add: mo)
    qed
    ultimately show ?thesis by (simp add: resolve_def)
  qed
  have r3: "resolve d fm ch = Source d p"
    if a: "(\<forall>l' p'. (l', p') \<in> set fm \<longrightarrow> p' \<notin> set ch) \<and> (d, p) \<in> set fm"
  proof -
    have e: "family_changed_files fm ch = []" using a no_changed by blast
    have "map_of fm d = Some p" using a dk by auto
    with e show ?thesis by (simp add: resolve_def)
  qed
  have r4: "resolve d fm ch = Source l p"
    if a: "(\<forall>l' p'. (l', p') \<in> set fm \<longrightarrow> p' \<notin> set ch) \<and> d \<notin> set (keys fm) \<and> fm = (l, p) # rest"
  proof -
    have e: "family_changed_files fm ch = []" using a no_changed by blast
    from a have "d \<notin> set (keys fm)" by blast
    then have n: "map_of fm d = None" by (simp add: keys_def map_of_eq_None_iff)
    from a have "fm = (l, p) # rest" by blast
    then have h: "fm \<noteq> []" "hd fm = (l, p)" by simp_all
    show ?thesis by (simp add: resolve_def e n h)
  qed
  show ?thesis
    by (intro conjI impI) (erule r1, erule r2, erule r3, erule r4)
qed


theorem resolve_decision_order_witness:
  "distinct (keys [(''en'', ex_A), (''zh'', ex_B)])
   \<and> resolve ''en'' [(''en'', ex_A), (''zh'', ex_B)] [ex_A, ex_B] = Source ''en'' ex_A
   \<and> resolve ''en'' [(''en'', ex_A), (''zh'', ex_B)] [ex_B] = Source ''zh'' ex_B
   \<and> resolve ''en'' [(''en'', ex_A), (''zh'', ex_B)] [] = Source ''en'' ex_A
   \<and> distinct (keys [(''zh'', ex_B), (''fr'', ex_C)])
   \<and> resolve ''en'' [(''zh'', ex_B), (''fr'', ex_C)] [] = Source ''zh'' ex_B"
proof -
  let ?fm = "[(''en'', ex_A), (''zh'', ex_B)]"
  let ?gm = "[(''zh'', ex_B), (''fr'', ex_C)]"
  have d1: "distinct (keys ?fm)" and d2: "distinct (keys ?gm)"
    by (simp_all add: keys_def)
  have ne: "ex_A \<noteq> ex_B" by (simp add: ex_A_def ex_B_def)
  have 1: "resolve ''en'' ?fm [ex_A, ex_B] = Source ''en'' ex_A"
    using resolve_decision_order[OF d1, where d = "''en''" and p = ex_A and ch = "[ex_A, ex_B]"]
    by simp
  have 2: "resolve ''en'' ?fm [ex_B] = Source ''zh'' ex_B"
    using resolve_decision_order[OF d1, where d = "''en''" and p = ex_B and ch = "[ex_B]"
        and l = "''zh''"] ne
    by simp
  have 3: "resolve ''en'' ?fm [] = Source ''en'' ex_A"
    using resolve_decision_order[OF d1, where d = "''en''" and p = ex_A and ch = "[]"]
    by simp
  have 4: "resolve ''en'' ?gm [] = Source ''zh'' ex_B"
    using resolve_decision_order[OF d2, where d = "''en''" and p = ex_B and ch = "[]"
        and l = "''zh''" and rest = "[(''fr'', ex_C)]"]
    by (simp add: keys_def)
  show ?thesis using d1 d2 1 2 3 4 by blast
qed

subsection \<open>C2: an ambiguous family is skipped\<close>

text \<open>
  Claim C2. When the file of the default locale is not in the list of changed files and
  two different entries of the family have their files in it, the resolver selects no
  source of truth: the family gets the diagnostic and nothing else, and the loop goes on
  with the remaining families.
\<close>

theorem ambiguous_family_skipped:
  assumes "\<forall>q. (d, q) \<in> set fm \<longrightarrow> q \<notin> set ch"
    and "(l1, p1) \<in> set fm" "p1 \<in> set ch"
    and "(l2, p2) \<in> set fm" "p2 \<in> set ch"
    and "(l1, p1) \<noteq> (l2, p2)"
  shows "resolve d fm ch = Skip_ambiguous (keys (family_changed_files fm ch))
       \<and> process_family tf R d lm ch log prefix fm
           = (log @ [Print_ambiguous (keys (family_changed_files fm ch))], None)
       \<and> process_families tf R d lm ch log ((prefix, fm) # rest)
           = process_families tf R d lm ch
               (log @ [Print_ambiguous (keys (family_changed_files fm ch))]) rest"
proof -
  let ?c = "family_changed_files fm ch"
  have "d \<notin> fst ` set ?c"
  proof
    assume "d \<in> fst ` set ?c"
    then obtain q where q: "(d, q) \<in> set ?c" by force
    then have "q \<in> set ch" by (simp add: family_changed_files_def)
    moreover from q changed_subset have "(d, q) \<in> set fm" by blast
    ultimately show False using assms(1) by blast
  qed
  then have n: "map_of ?c d = None" by (simp add: map_of_eq_None_iff)
  have "(l1, p1) \<in> set ?c" "(l2, p2) \<in> set ?c"
    using assms(2-5) by (simp_all add: family_changed_files_def)
  then have len: "length ?c > 1" using assms(6) by (rule two_members_length)
  have r: "resolve d fm ch = Skip_ambiguous (keys ?c)"
    using n len by (simp add: resolve_def Let_def)
  have f: "process_family tf R d lm ch log prefix fm = (log @ [Print_ambiguous (keys ?c)], None)"
    by (simp add: process_family_def r)
  show ?thesis by (simp add: r f)
qed


theorem ambiguous_family_skipped_witness:
  "resolve ''en'' [(''zh'', ex_B), (''fr'', ex_C)] [ex_B, ex_C] = Skip_ambiguous [''zh'', ''fr'']
   \<and> process_families ex_silent ex_root ''en'' ex_locales [ex_B, ex_C] []
        [(''/p/content/docs/index'', [(''zh'', ex_B), (''fr'', ex_C)]),
         (''/p/messages'', [])]
      = ([Print_ambiguous [''zh'', ''fr''], Print_empty], None)"
proof -
  let ?fm = "[(''zh'', ex_B), (''fr'', ex_C)]"
  let ?ch = "[ex_B, ex_C]"
  have h1: "\<forall>q. (''en'', q) \<in> set ?fm \<longrightarrow> q \<notin> set ?ch" by simp
  have h2: "(''zh'', ex_B) \<in> set ?fm" and h3: "ex_B \<in> set ?ch"
    and h4: "(''fr'', ex_C) \<in> set ?fm" and h5: "ex_C \<in> set ?ch"
    and h6: "(''zh'', ex_B) \<noteq> (''fr'', ex_C)"
    by simp_all
  note T = ambiguous_family_skipped[OF h1 h2 h3 h4 h5 h6, where tf = ex_silent and R = ex_root
      and lm = ex_locales and log = "[]" and prefix = "''/p/content/docs/index''"
      and rest = "[(''/p/messages'', [])]"]
  have k: "keys (family_changed_files ?fm ?ch) = [''zh'', ''fr'']"
    by (simp add: keys_def family_changed_files_def)
  have e: "process_families ex_silent ex_root ''en'' ex_locales ?ch
             ([] @ [Print_ambiguous [''zh'', ''fr'']]) [(''/p/messages'', [])]
           = ([Print_ambiguous [''zh'', ''fr''], Print_empty], None)"
    by (simp add: process_family_def resolve_def family_changed_files_def)
  from T have "resolve ''en'' ?fm ?ch = Skip_ambiguous (keys (family_changed_files ?fm ?ch))"
    by (rule conjunct1)
  then have r: "resolve ''en'' ?fm ?ch = Skip_ambiguous [''zh'', ''fr'']"
    by (simp only: k)
  from T have "process_families ex_silent ex_root ''en'' ex_locales ?ch []
        [(''/p/content/docs/index'', ?fm), (''/p/messages'', [])]
      = process_families ex_silent ex_root ''en'' ex_locales ?ch
          ([] @ [Print_ambiguous (keys (family_changed_files ?fm ?ch))]) [(''/p/messages'', [])]"
    by (rule conjunct2[THEN conjunct2])
  then have "process_families ex_silent ex_root ''en'' ex_locales ?ch []
        [(''/p/content/docs/index'', ?fm), (''/p/messages'', [])]
      = ([Print_ambiguous [''zh'', ''fr''], Print_empty], None)"
    by (simp only: k e)
  with r show ?thesis by (rule conjI)
qed

subsection \<open>C3: the three rules of the classifier\<close>

text \<open>
  Claim C3. With \<open>dir\<close> the directory of the file and \<open>segs\<close> the stem split on dots:
  when there are at least two segments and the last is a supported locale, that segment is
  the locale and the key is \<open>dir\<close> joined with the other segments, joined by dots; else
  when the stem is a supported locale it is the locale and the key is \<open>dir\<close>; else the
  locale is the default and the key is \<open>dir\<close> joined with the stem.
\<close>

theorem classify_three_rules:
  fixes p d S
  defines "dir \<equiv> parent (Path p)" and "segs \<equiv> split_on CHR ''.'' (stem (Path p))"
  shows "(length segs \<ge> 2 \<and> last segs \<in> set S \<longrightarrow>
            get_path_prefix_and_lang p d S
              = (str (joinstr dir (join_with ''.'' (butlast segs))), last segs))
       \<and> (\<not> (length segs \<ge> 2 \<and> last segs \<in> set S) \<and> stem (Path p) \<in> set S \<longrightarrow>
            get_path_prefix_and_lang p d S = (str dir, stem (Path p)))
       \<and> (\<not> (length segs \<ge> 2 \<and> last segs \<in> set S) \<and> stem (Path p) \<notin> set S \<longrightarrow>
            get_path_prefix_and_lang p d S = (str (joinstr dir (stem (Path p))), d))"
proof -
  have two: "(2 \<le> length segs) = (1 < length segs)" by linarith
  show ?thesis
    unfolding get_path_prefix_and_lang_def Let_def two dir_def[symmetric] segs_def[symmetric]
    by simp
qed

theorem classify_three_rules_witness:
  "get_path_prefix_and_lang ''docs/index.en.mdx'' ''en'' [''en'', ''zh''] = (''docs/index'', ''en'')
   \<and> get_path_prefix_and_lang ''messages/en.json'' ''en'' [''en'', ''zh''] = (''messages'', ''en'')
   \<and> get_path_prefix_and_lang ''docs/index.mdx'' ''en'' [''en'', ''zh''] = (''docs/index'', ''en'')"
proof -
  note defs = Path_def splitroot_def parent_def stem_def name_def rfind_def str_def
    joinstr_def joinpath_def Let_def
  have 1: "get_path_prefix_and_lang ''docs/index.en.mdx'' ''en'' [''en'', ''zh''] = (''docs/index'', ''en'')"
    using classify_three_rules[of "''docs/index.en.mdx''" "[''en'', ''zh'']" "''en''"]
    by (simp add: defs)
  have 2: "get_path_prefix_and_lang ''messages/en.json'' ''en'' [''en'', ''zh''] = (''messages'', ''en'')"
    using classify_three_rules[of "''messages/en.json''" "[''en'', ''zh'']" "''en''"]
    by (simp add: defs)
  have 3: "get_path_prefix_and_lang ''docs/index.mdx'' ''en'' [''en'', ''zh''] = (''docs/index'', ''en'')"
    using classify_three_rules[of "''docs/index.mdx''" "[''en'', ''zh'']" "''en''"]
    by (simp add: defs)
  show ?thesis using 1 2 3 by blast
qed

subsection \<open>C4: the destination of a created file\<close>



subsection \<open>C5: the targets partition the supported locales\<close>

text \<open>
  Claim C5. When the resolver elects the locale \<open>l\<close> and \<open>l\<close> is a supported locale, the
  locales to create, the locales to update and \<open>l\<close> itself are pairwise disjoint and
  together are the supported locales. (That the other keys of the family are supported is
  not needed.)
\<close>

theorem targets_partition:
  assumes "resolve d fm ch = Source l p" and "l \<in> set S"
  shows "set (targets_to_create S fm) \<inter> set (targets_to_update S fm l) = {}
       \<and> l \<notin> set (targets_to_create S fm)
       \<and> l \<notin> set (targets_to_update S fm l)
       \<and> set (targets_to_create S fm) \<union> set (targets_to_update S fm l) \<union> {l} = set S"
proof -
  from assms(1) have "(l, p) \<in> set fm" by (rule resolve_Source_mem)
  then have c: "contains fm l" by (force simp: contains_def keys_def)
  have 1: "set (targets_to_create S fm) = {x \<in> set S. \<not> contains fm x}"
    by (simp add: targets_to_create_def)
  have 2: "set (targets_to_update S fm l) = {x \<in> set S. contains fm x \<and> x \<noteq> l}"
    by (simp add: targets_to_update_def)
  show ?thesis unfolding 1 2 using c assms(2) by blast
qed


theorem targets_partition_witness:
  "resolve ''en'' [(''en'', ex_A), (''zh'', ex_B)] [] = Source ''en'' ex_A
   \<and> ''en'' \<in> set (keys ex_locales)
   \<and> targets_to_create (keys ex_locales) [(''en'', ex_A), (''zh'', ex_B)] = [''ko'']
   \<and> targets_to_update (keys ex_locales) [(''en'', ex_A), (''zh'', ex_B)] ''en'' = [''zh'']
   \<and> set [''ko''] \<union> set [''zh''] \<union> {''en''} = set (keys ex_locales)"
proof -
  let ?fm = "[(''en'', ex_A), (''zh'', ex_B)]"
  have h1: "resolve ''en'' ?fm [] = Source ''en'' ex_A"
    by (simp add: resolve_def family_changed_files_def)
  have h2: "''en'' \<in> set (keys ex_locales)" by (simp add: keys_def ex_locales_def)
  have c: "targets_to_create (keys ex_locales) ?fm = [''ko'']"
    by (simp add: targets_to_create_def contains_def keys_def ex_locales_def)
  have u: "targets_to_update (keys ex_locales) ?fm ''en'' = [''zh'']"
    by (simp add: targets_to_update_def contains_def keys_def ex_locales_def)
  from targets_partition[OF h1 h2] have "set (targets_to_create (keys ex_locales) ?fm)
      \<union> set (targets_to_update (keys ex_locales) ?fm ''en'') \<union> {''en''} = set (keys ex_locales)"
    by blast
  then have "set [''ko''] \<union> set [''zh''] \<union> {''en''} = set (keys ex_locales)"
    by (simp only: c u)
  with h1 h2 c u show ?thesis by blast
qed

subsection \<open>C6: the change filter\<close>

text \<open>
  Claim C6, as the code has it. The filter is guarded by the argument string, not by the
  list parsed from it: when the string is empty the families are returned unchanged and
  the list of changed files is empty; when it is not empty, exactly the families with an
  entry whose path is in the parsed list are kept, in their order.
\<close>

theorem change_filter_gate:
  "(cf = [] \<longrightarrow> filter_by_changes R cf fams = ([], fams))
   \<and> (cf \<noteq> [] \<longrightarrow>
        fst (filter_by_changes R cf fams) = parse_changed_files R cf
        \<and> snd (filter_by_changes R cf fams)
            = [(prefix, fm) \<leftarrow> fams. \<exists>(l, p) \<in> set fm. p \<in> set (parse_changed_files R cf)])"
proof -
  have "list_ex (\<lambda>path. path \<in> set c) (map snd fm) = (\<exists>(l, p) \<in> set fm. p \<in> set c)"
    for fm :: files_map and c
    by (force simp: list_ex_iff)
  then show ?thesis
    by (simp add: filter_by_changes_def affected_families_def Let_def)
qed

theorem change_filter_gate_witness:
  "filter_by_changes ex_root [] [(''/p/content/docs/index'', [(''en'', ex_A)])]
     = ([], [(''/p/content/docs/index'', [(''en'', ex_A)])])
   \<and> snd (filter_by_changes ex_root ''p/content/docs/index.mdx''
        [(''/p/content/docs/index'', [(''en'', ex_A)]), (''/p/messages'', [(''en'', ex_M)])])
     = [(''/p/content/docs/index'', [(''en'', ex_A)])]"
proof -
  let ?fams = "[(''/p/content/docs/index'', [(''en'', ex_A)]), (''/p/messages'', [(''en'', ex_M)])]"
  let ?cf = "''p/content/docs/index.mdx''"
  have 1: "filter_by_changes ex_root [] [(''/p/content/docs/index'', [(''en'', ex_A)])]
     = ([], [(''/p/content/docs/index'', [(''en'', ex_A)])])"
    using change_filter_gate[where cf = "[]"] by blast
  have ne: "?cf \<noteq> []" by simp
  have p: "parse_changed_files ex_root ?cf = [ex_A]" by code_simp
  have "snd (filter_by_changes ex_root ?cf ?fams)
      = [(prefix, fm) \<leftarrow> ?fams. \<exists>(l, p) \<in> set fm. p \<in> set (parse_changed_files ex_root ?cf)]"
    using change_filter_gate[where cf = ?cf and R = ex_root and fams = ?fams] ne by blast
  also have "\<dots> = [(''/p/content/docs/index'', [(''en'', ex_A)])]"
    by (simp add: p ex_A_def ex_M_def)
  finally show ?thesis using 1 by blast
qed

text \<open>
  The claim as stated fails for an argument that holds only separators: the parsed list is
  empty, and the filter returns no family instead of all of them.
\<close>

theorem change_filter_counterexample:
  "fst (filter_by_changes ex_root '','' [(''/p/content/docs/index'', [(''en'', ex_A)])]) = []
   \<and> snd (filter_by_changes ex_root '','' [(''/p/content/docs/index'', [(''en'', ex_A)])])
       \<noteq> [(''/p/content/docs/index'', [(''en'', ex_A)])]"
  by (simp add: ex_filter)

subsection \<open>C7: a failure of the backend\<close>

text \<open>
  Claim C7, as the code has it. The loop has no handler. Let the families \<open>pre\<close> have
  been processed, with the events \<open>log1\<close>, and let the next family have the source of
  truth \<open>p\<close> of locale \<open>l\<close>; the display names and paths the two calls need are always
  found. When the backend fails on the creation call, or when the creation went through
  and the backend fails on the update call, the exception leaves the loop: the log is the
  one before the call followed by the failed call and nothing else, it keeps the events
  of the families before, and neither the rest of the family nor the families \<open>rest\<close> are
  attempted. An exception that leaves the loop leaves \<^verbatim>\<open>main\<close>.
\<close>

theorem backend_failure_aborts:
  fixes tf :: "'e backend" and lm fm l
  defines "tc \<equiv> targets_to_create (keys lm) fm"
    and "tu \<equiv> targets_to_update (keys lm) fm l"
  assumes pre: "process_families tf R d lm ch log pre = (log1, None)"
    and src: "resolve d fm ch = Source l p"
    and rel: "is_relative_to p R"
    and full: "map_of lm l = Some full"
  shows "\<exists>m names_c paths names_u.
      log1 = log @ m
    \<and> getitems lm tc = Inr names_c
    \<and> getitems fm tu = Inr paths
    \<and> getitems lm tu = Inr names_u
    \<and> (\<forall>e. tc \<noteq> [] \<and> tf log1 (Call [str p] l full tc names_c False) = Inl e \<longrightarrow>
          process_families tf R d lm ch log (pre @ (prefix, fm) # rest)
            = (log1 @ [Translate (Call [str p] l full tc names_c False)],
               Some (Backend_error e)))
    \<and> (\<forall>log2 e.
          create_missing tf R d lm log1 prefix l p tc = (log2, None) \<and> tu \<noteq> []
          \<and> tf log2 (Call (str p # map str paths) l full tu names_u True) = Inl e \<longrightarrow>
          (\<exists>m2. log2 = log1 @ m2)
          \<and> process_families tf R d lm ch log (pre @ (prefix, fm) # rest)
            = (log2 @ [Translate (Call (str p # map str paths) l full tu names_u True)],
               Some (Backend_error e)))
    \<and> (\<forall>fams log' err.
          filter_by_changes R cf (build_families d (keys lm) walk) = (ch, fams)
          \<and> process_families tf R d lm ch [] fams = (log', Some err) \<longrightarrow>
          main tf R d lm walk cf = (log', Raised err))"
proof -
  from process_families_extends[of tf R d lm ch log pre] pre
  obtain m where m: "log1 = log @ m" by auto
  have "set tc \<subseteq> set (keys lm)" by (simp add: tc_def targets_to_create_def)
  from getitems_total[OF this] obtain names_c where nc: "getitems lm tc = Inr names_c" by blast
  have "set tu \<subseteq> set (keys lm)" by (simp add: tu_def targets_to_update_def)
  from getitems_total[OF this] obtain names_u where nu: "getitems lm tu = Inr names_u" by blast
  have "set tu \<subseteq> set (keys fm)" by (auto simp add: tu_def targets_to_update_def contains_def)
  from getitems_total[OF this] obtain paths where pa: "getitems fm tu = Inr paths" by blast
  let ?c = "Call [str p] l full tc names_c False"
  let ?u = "Call (str p # map str paths) l full tu names_u True"
  note app = process_families_append[OF pre, of "(prefix, fm) # rest"]
  have A: "process_families tf R d lm ch log (pre @ (prefix, fm) # rest)
            = (log1 @ [Translate ?c], Some (Backend_error e))"
    if "tc \<noteq> [] \<and> tf log1 ?c = Inl e" for e
  proof -
    from that have "create_missing tf R d lm log1 prefix l p tc
        = (log1 @ [Translate ?c], Some (Backend_error e))"
      by (simp add: create_missing_def full nc)
    then have "process_family tf R d lm ch log1 prefix fm
        = (log1 @ [Translate ?c], Some (Backend_error e))"
      by (simp add: process_family_def src rel Let_def tc_def)
    then show ?thesis by (simp add: app)
  qed
  have B: "(\<exists>m2. log2 = log1 @ m2)
          \<and> process_families tf R d lm ch log (pre @ (prefix, fm) # rest)
            = (log2 @ [Translate ?u], Some (Backend_error e))"
    if h: "create_missing tf R d lm log1 prefix l p tc = (log2, None) \<and> tu \<noteq> []
          \<and> tf log2 ?u = Inl e" for log2 e
  proof -
    from create_missing_extends[of tf R d lm log1 prefix l p tc] h
    have x: "\<exists>m2. log2 = log1 @ m2" by auto
    from h have "update_existing tf lm log2 fm l p tu
        = (log2 @ [Translate ?u], Some (Backend_error e))"
      by (simp add: update_existing_def full nu pa)
    with h have "process_family tf R d lm ch log1 prefix fm
        = (log2 @ [Translate ?u], Some (Backend_error e))"
      by (simp add: process_family_def src rel Let_def tc_def tu_def)
    then have "process_families tf R d lm ch log (pre @ (prefix, fm) # rest)
            = (log2 @ [Translate ?u], Some (Backend_error e))"
      by (simp add: app)
    with x show ?thesis by blast
  qed
  have C: "main tf R d lm walk cf = (log', Raised err)"
    if "filter_by_changes R cf (build_families d (keys lm) walk) = (ch, fams)
          \<and> process_families tf R d lm ch [] fams = (log', Some err)" for fams log' err
    using that main_raises by blast
  from m nc pa nu A B C show ?thesis by blast
qed

theorem backend_failure_aborts_witness:
  "process_families ex_failing ex_root ''en'' ex_locales [] [] [] = ([], None)
   \<and> resolve ''en'' [(''en'', ex_A)] [] = Source ''en'' ex_A
   \<and> is_relative_to ex_A ex_root
   \<and> map_of ex_locales ''en'' = Some ''English''
   \<and> process_families ex_failing ex_root ''en'' ex_locales [] []
        ([] @ (''/p/content/docs/index'', [(''en'', ex_A)]) # [(''/p/messages'', [(''en'', ex_M)])])
     = ([Translate (Call [''/p/content/docs/index.mdx''] ''en'' ''English'' [''zh'', ''ko'']
                      [''Chinese'', ''Korean''] False)],
        Some (Backend_error ()))
   \<and> main ex_failing ex_root ''en'' ex_locales ex_walk []
     = ([Translate (Call [''/p/content/docs/index.mdx''] ''en'' ''English'' [''zh'', ''ko'']
                      [''Chinese'', ''Korean''] False)],
        Raised (Backend_error ()))
   \<and> resolve ''en'' [(''en'', ex_A), (''zh'', ex_B)] [] = Source ''en'' ex_A
   \<and> process_families ex_update_failing ex_root ''en'' ex_locales [] []
        ([] @ (''/p/content/docs/index'', [(''en'', ex_A), (''zh'', ex_B)])
            # [(''/p/messages'', [(''en'', ex_M)])])
     = ([Translate (Call [''/p/content/docs/index.mdx''] ''en'' ''English'' [''ko'']
                      [''Korean''] False),
         Translate (Call [''/p/content/docs/index.mdx'', ''/p/content/docs/index.zh.mdx'']
                      ''en'' ''English'' [''zh''] [''Chinese''] True)],
        Some (Backend_error ()))"
proof -
  let ?rest = "[(''/p/messages'', [(''en'', ex_M)])]"
  let ?prefix = "''/p/content/docs/index''"
  have rel: "is_relative_to ex_A ex_root" by code_simp
  have full: "map_of ex_locales ''en'' = Some ''English''" by code_simp
  let ?fm = "[(''en'', ex_A)]"
  let ?c = "Call [''/p/content/docs/index.mdx''] ''en'' ''English'' [''zh'', ''ko'']
              [''Chinese'', ''Korean''] False"
  have pre: "process_families ex_failing ex_root ''en'' ex_locales [] [] [] = ([], None)"
    by simp
  have src: "resolve ''en'' ?fm [] = Source ''en'' ex_A" by code_simp
  have tc: "targets_to_create (keys ex_locales) ?fm = [''zh'', ''ko'']" by code_simp
  have sa: "str ex_A = ''/p/content/docs/index.mdx''" by code_simp
  have gc: "getitems ex_locales [''zh'', ''ko''] = Inr [''Chinese'', ''Korean'']" by code_simp
  from backend_failure_aborts[OF pre src rel full, where prefix = ?prefix and rest = ?rest
      and cf = "[]" and walk = ex_walk]
  obtain names_c where
    n: "getitems ex_locales (targets_to_create (keys ex_locales) ?fm) = Inr names_c"
    and A: "\<forall>e. targets_to_create (keys ex_locales) ?fm \<noteq> []
          \<and> ex_failing [] (Call [str ex_A] ''en'' ''English''
                (targets_to_create (keys ex_locales) ?fm) names_c False) = Inl e \<longrightarrow>
          process_families ex_failing ex_root ''en'' ex_locales [] []
              ([] @ (?prefix, ?fm) # ?rest)
            = ([] @ [Translate (Call [str ex_A] ''en'' ''English''
                       (targets_to_create (keys ex_locales) ?fm) names_c False)],
               Some (Backend_error e))"
    and C: "\<forall>fams log' err.
          filter_by_changes ex_root [] (build_families ''en'' (keys ex_locales) ex_walk)
            = ([], fams)
          \<and> process_families ex_failing ex_root ''en'' ex_locales [] [] fams = (log', Some err)
          \<longrightarrow> main ex_failing ex_root ''en'' ex_locales ex_walk [] = (log', Raised err)"
    by blast
  from n[unfolded tc gc] have names_c: "names_c = [''Chinese'', ''Korean'']" by simp
  have "ex_failing [] ?c = Inl ()" by (simp add: ex_failing_def)
  with A have 1: "process_families ex_failing ex_root ''en'' ex_locales [] []
        ([] @ (?prefix, ?fm) # ?rest) = ([Translate ?c], Some (Backend_error ()))"
    by (simp add: tc sa names_c)
  have "filter_by_changes ex_root [] (build_families ''en'' (keys ex_locales) ex_walk)
      = ([], [] @ (?prefix, ?fm) # ?rest)"
    by (simp add: ex_build filter_by_changes_def)
  with C 1 have 2: "main ex_failing ex_root ''en'' ex_locales ex_walk []
      = ([Translate ?c], Raised (Backend_error ()))"
    by blast
  let ?gm = "[(''en'', ex_A), (''zh'', ex_B)]"
  let ?c1 = "Call [''/p/content/docs/index.mdx''] ''en'' ''English'' [''ko''] [''Korean''] False"
  let ?c2 = "Call [''/p/content/docs/index.mdx'', ''/p/content/docs/index.zh.mdx'']
               ''en'' ''English'' [''zh''] [''Chinese''] True"
  have pre': "process_families ex_update_failing ex_root ''en'' ex_locales [] [] [] = ([], None)"
    by simp
  have src': "resolve ''en'' ?gm [] = Source ''en'' ex_A" by code_simp
  have tc': "targets_to_create (keys ex_locales) ?gm = [''ko'']" by code_simp
  have tu': "targets_to_update (keys ex_locales) ?gm ''en'' = [''zh'']" by code_simp
  have gp: "getitems ?gm [''zh''] = Inr [ex_B]" by code_simp
  have gu: "getitems ex_locales [''zh''] = Inr [''Chinese'']" by code_simp
  have sb: "str ex_B = ''/p/content/docs/index.zh.mdx''" by code_simp
  have cm: "create_missing ex_update_failing ex_root ''en'' ex_locales [] ?prefix ''en'' ex_A
      [''ko''] = ([Translate ?c1], None)"
    by code_simp
  from backend_failure_aborts[OF pre' src' rel full, where prefix = ?prefix and rest = ?rest
      and cf = "[]" and walk = ex_walk]
  obtain paths names_u where
    p: "getitems ?gm (targets_to_update (keys ex_locales) ?gm ''en'') = Inr paths"
    and u: "getitems ex_locales (targets_to_update (keys ex_locales) ?gm ''en'') = Inr names_u"
    and B: "\<forall>log2 e.
          create_missing ex_update_failing ex_root ''en'' ex_locales [] ?prefix ''en'' ex_A
              (targets_to_create (keys ex_locales) ?gm) = (log2, None)
          \<and> targets_to_update (keys ex_locales) ?gm ''en'' \<noteq> []
          \<and> ex_update_failing log2 (Call (str ex_A # map str paths) ''en'' ''English''
                (targets_to_update (keys ex_locales) ?gm ''en'') names_u True) = Inl e \<longrightarrow>
          (\<exists>m2. log2 = [] @ m2)
          \<and> process_families ex_update_failing ex_root ''en'' ex_locales [] []
              ([] @ (?prefix, ?gm) # ?rest)
            = (log2 @ [Translate (Call (str ex_A # map str paths) ''en'' ''English''
                         (targets_to_update (keys ex_locales) ?gm ''en'') names_u True)],
               Some (Backend_error e))"
    by blast
  from p[unfolded tu' gp] have paths: "paths = [ex_B]" by simp
  from u[unfolded tu' gu] have names_u: "names_u = [''Chinese'']" by simp
  have "ex_update_failing [Translate ?c1] ?c2 = Inl ()" by (simp add: ex_update_failing_def)
  with B[rule_format, of "[Translate ?c1]" "()"] cm
  have 3: "process_families ex_update_failing ex_root ''en'' ex_locales [] []
        ([] @ (?prefix, ?gm) # ?rest) = ([Translate ?c1, Translate ?c2], Some (Backend_error ()))"
    by (simp add: tc' tu' sa sb paths names_u)
  from pre src rel full 1 2 src' 3 show ?thesis by blast
qed

text \<open>
  The claim as stated fails on the example project with a backend that always fails: the
  scan finds two families, the run ends with the exception after the first call, and the
  second family is never attempted.
\<close>

theorem backend_failure_counterexample:
  "build_families ''en'' (keys ex_locales) ex_walk
     = [(''/p/content/docs/index'', [(''en'', ex_A)]), (''/p/messages'', [(''en'', ex_M)])]
   \<and> main ex_failing ex_root ''en'' ex_locales ex_walk []
     = ([Translate (Call [''/p/content/docs/index.mdx''] ''en'' ''English'' [''zh'', ''ko'']
                      [''Chinese'', ''Korean''] False)],
        Raised (Backend_error ()))"
  using ex_build ex_fail by (rule conjI)

subsection \<open>C8: no family left after the filter\<close>

text \<open>
  Claim C8. When the filter leaves no family, the run ends successfully, by
  \<^verbatim>\<open>sys.exit(0)\<close> when there was an argument and by returning when there was none, and
  its log of events is empty: no call to the backend is made.
\<close>

theorem empty_filter_result_exits:
  assumes "snd (filter_by_changes R cf (build_families d (keys lm) walk)) = []"
  shows "main tf R d lm walk cf = ([], if cf \<noteq> [] then Exit 0 else Completed)"
proof -
  obtain chl where f: "filter_by_changes R cf (build_families d (keys lm) walk) = (chl, [])"
    using assms by (cases "filter_by_changes R cf (build_families d (keys lm) walk)") simp
  show ?thesis by (simp add: main_def Let_def f)
qed

theorem empty_filter_result_exits_witness:
  "snd (filter_by_changes ex_root ''p/README.md''
          (build_families ''en'' (keys ex_locales) ex_walk)) = []
   \<and> main ex_silent ex_root ''en'' ex_locales ex_walk ''p/README.md'' = ([], Exit 0)"
proof -
  have h: "snd (filter_by_changes ex_root ''p/README.md''
          (build_families ''en'' (keys ex_locales) ex_walk)) = []"
    by code_simp
  from empty_filter_result_exits[OF h, where tf = ex_silent] h show ?thesis by simp
qed

subsection \<open>C9: a scanned family is not empty\<close>

text \<open>
  Claim C9. Every family the scan builds has at least one entry, so the resolver never
  reaches its branch for an empty family on it. (The filter of step 2 only drops
  families, see \<open>filter_by_changes_subset\<close>.)
\<close>

theorem scanned_family_nonempty:
  assumes "(prefix, fm) \<in> set (build_families d S walk)"
  shows "fm \<noteq> [] \<and> resolve d fm ch \<noteq> Skip_empty"
proof -
  from assms have "family_ok d S fm" by (rule build_families_ok)
  then have ne: "fm \<noteq> []" by (simp add: family_ok_def)
  with resolve_Skip_empty show ?thesis by blast
qed

theorem scanned_family_nonempty_witness:
  "(''/p/messages'', [(''en'', ex_M)]) \<in> set (build_families ''en'' (keys ex_locales) ex_walk)
   \<and> [(''en'', ex_M)] \<noteq> []
   \<and> resolve ''en'' [(''en'', ex_M)] [] \<noteq> Skip_empty"
proof -
  have h: "(''/p/messages'', [(''en'', ex_M)])
      \<in> set (build_families ''en'' (keys ex_locales) ex_walk)"
    by (simp add: ex_build)
  from scanned_family_nonempty[OF h, of "[]"] h show ?thesis by blast
qed

subsection \<open>C10: the display name of the source locale\<close>

text \<open>
  Claim C10. When the default locale is a key of \<^verbatim>\<open>locales_map\<close>, the locale the
  resolver elects for a scanned family is a key of \<^verbatim>\<open>locales_map\<close> and of the family,
  so its display name is found, and no run ends with a \<^verbatim>\<open>KeyError\<close>. The script does
  not check the precondition: with the default locale \<open>en\<close> and \<open>zh\<close> the only supported
  locale, the run on one file ends with \<^verbatim>\<open>KeyError\<close> on \<open>en\<close>.
\<close>

theorem source_locale_lookup_safe:
  "(d \<in> set (keys lm) \<longrightarrow>
      (\<forall>prefix fm l p.
          (prefix, fm) \<in> set (build_families d (keys lm) walk) \<and> resolve d fm ch = Source l p
          \<longrightarrow> contains lm l \<and> contains fm l \<and> (\<exists>full. map_of lm l = Some full))
      \<and> (\<forall>k. snd (main tf R d lm walk cf) \<noteq> Raised (KeyError k)))
   \<and> main ex_silent ex_root ''en'' [(''zh'', ''Chinese'')]
        [(''/p/content/docs'', ''index.mdx'')] []
      = ([], Raised (KeyError ''en''))"
proof -
  have a: "contains lm l \<and> contains fm l \<and> (\<exists>full. map_of lm l = Some full)"
    if d: "d \<in> set (keys lm)"
      and m: "(prefix, fm) \<in> set (build_families d (keys lm) walk) \<and> resolve d fm ch = Source l p"
    for prefix fm l p
  proof -
    from m have "family_ok d (keys lm) fm" using build_families_ok by blast
    with d have sub: "set (keys fm) \<subseteq> set (keys lm)" by (auto simp: family_ok_def)
    from m have "(l, p) \<in> set fm" using resolve_Source_mem by blast
    then have lf: "l \<in> set (keys fm)" by (force simp: keys_def)
    with sub have ll: "l \<in> set (keys lm)" by blast
    then have "l \<in> fst ` set lm" by (simp add: keys_def)
    then have "\<exists>full. map_of lm l = Some full"
      by (cases "map_of lm l") (simp_all add: map_of_eq_None_iff)
    with lf ll show ?thesis by (simp add: contains_def)
  qed
  have b: "snd (main tf R d lm walk cf) \<noteq> Raised (KeyError k)" if "d \<in> set (keys lm)" for k
    using that by (rule main_no_KeyError)
  from a b ex_keyerror show ?thesis by blast
qed

theorem source_locale_lookup_safe_witness:
  "''en'' \<in> set (keys ex_locales)
   \<and> (''/p/messages'', [(''en'', ex_M)]) \<in> set (build_families ''en'' (keys ex_locales) ex_walk)
   \<and> resolve ''en'' [(''en'', ex_M)] [] = Source ''en'' ex_M
   \<and> contains ex_locales ''en''
   \<and> snd (main ex_silent ex_root ''en'' ex_locales ex_walk []) \<noteq> Raised (KeyError ''en'')"
proof -
  have h1: "''en'' \<in> set (keys ex_locales)" by code_simp
  have h2: "(''/p/messages'', [(''en'', ex_M)])
      \<in> set (build_families ''en'' (keys ex_locales) ex_walk)"
    by (simp add: ex_build)
  have h3: "resolve ''en'' [(''en'', ex_M)] [] = Source ''en'' ex_M" by code_simp
  note T = source_locale_lookup_safe[where d = "''en''" and lm = ex_locales and walk = ex_walk
      and ch = "[]" and tf = ex_silent and R = ex_root and cf = "[]"]
  from T h1 h2 h3 have "contains ex_locales ''en''" by blast
  moreover from T h1
  have "snd (main ex_silent ex_root ''en'' ex_locales ex_walk []) \<noteq> Raised (KeyError ''en'')"
    by blast
  ultimately show ?thesis using h1 h2 h3 by blast
qed

end
